theory Spec2Isabelle
  imports Main "HOL-Library.Multiset" "HOL-Library.Word"
begin

section \<open>The blocking FIFO queue of \<^verbatim>\<open>concurrent_queue.hpp\<close>\<close>

text \<open>
  The class \<^verbatim>\<open>pt::Concurrent_queue<T>\<close> owns a \<^verbatim>\<open>std::deque<T> deque_\<close>, a
  \<^verbatim>\<open>std::condition_variable cv_\<close> and a \<^verbatim>\<open>std::mutex mutex_\<close>. Every method takes
  \<^verbatim>\<open>mutex_\<close> before it touches \<^verbatim>\<open>deque_\<close> and gives it up only at the end of its critical
  section or inside a wait on \<^verbatim>\<open>cv_\<close>. The model is written from the point of view of
  the calling thread:

  \<^item> the data of the queue is the sequence held by \<^verbatim>\<open>deque_\<close> (the field is called
    \<open>deque\<close> here, an identifier may not end in an underscore); front of the deque is the
    head of the list;
  \<^item> a critical section is one function on that sequence, since no other thread can
    observe or change \<^verbatim>\<open>deque_\<close> while the caller holds \<^verbatim>\<open>mutex_\<close>;
  \<^item> the only points where other threads get at \<^verbatim>\<open>deque_\<close> during a call are the waits on
    \<^verbatim>\<open>cv_\<close>, which release \<^verbatim>\<open>mutex_\<close> while the caller sleeps. What the other threads do
    there is an explicit input of the model: a schedule, the list of the caller's wake-ups,
    each with the time slept and the critical sections other threads ran in the meantime;
  \<^item> \<^verbatim>\<open>cv_.notify_one()\<close> changes no data of the queue: it is the cause of a wake-up in
    the schedule of some other thread;
  \<^item> the duration handed to the timed \<^verbatim>\<open>pop\<close> is a \<^verbatim>\<open>std::chrono::milliseconds\<close>, a signed
    64-bit count of milliseconds, and a reading of \<^verbatim>\<open>steady_clock\<close> is a signed 64-bit count
    of nanoseconds: both are words of 64 bits read as signed numbers, and the arithmetic that
    computes the deadline wraps around as the machine's does. Once the call sleeps, the
    clock runs on as an integer, in nanoseconds.
\<close>

subsection \<open>Data\<close>

record 'a Concurrent_queue =
  deque :: "'a list"

text \<open>The constructor, \<^verbatim>\<open>Concurrent_queue() : deque_{} {}\<close>.\<close>

definition Concurrent_queue :: "'a Concurrent_queue" where
  "Concurrent_queue = \<lparr>deque = []\<rparr>"

text \<open>
  A call that does not come back with a value of its return type: the thread stays parked
  on \<^verbatim>\<open>cv_\<close> for ever, or the call runs \<^verbatim>\<open>front()\<close> and \<^verbatim>\<open>pop_front()\<close> on an empty
  deque, which the standard library leaves undefined.
\<close>

datatype fault = Blocked | Undefined

subsection \<open>Critical sections\<close>

text \<open>\<^verbatim>\<open>deque_.push_back(item)\<close>, followed by \<^verbatim>\<open>cv_.notify_one()\<close> outside the lock.\<close>

definition push :: "'a \<Rightarrow> 'a Concurrent_queue \<Rightarrow> 'a Concurrent_queue" where
  "push item q = q\<lparr>deque := deque q @ [item]\<rparr>"

text \<open>\<^verbatim>\<open>deque_.clear()\<close>, declared \<^verbatim>\<open>noexcept\<close>.\<close>

definition clear :: "'a Concurrent_queue \<Rightarrow> 'a Concurrent_queue" where
  "clear q = q\<lparr>deque := []\<rparr>"

text \<open>
  \<^verbatim>\<open>value = deque_.front(); deque_.pop_front();\<close>, the tail of both \<^verbatim>\<open>pop\<close> methods.
  \<open>None\<close> is the undefined behaviour of the two calls on an empty deque.
\<close>

definition take_front :: "'a Concurrent_queue \<Rightarrow> ('a \<times> 'a Concurrent_queue) option" where
  "take_front q = (case deque q of [] \<Rightarrow> None | v # rest \<Rightarrow> Some (v, q\<lparr>deque := rest\<rparr>))"

text \<open>
  The predicate of both waits, \<^verbatim>\<open>[this] { return deque_.size(); }\<close>: the size converted to
  \<^verbatim>\<open>bool\<close>.
\<close>

definition nonempty :: "'a Concurrent_queue \<Rightarrow> bool" where
  "nonempty q = (length (deque q) \<noteq> 0)"

subsection \<open>The other threads\<close>

text \<open>
  \<^verbatim>\<open>deque_\<close> is private, so another thread changes it only through the critical section of
  one of the methods: a \<^verbatim>\<open>push\<close>, a \<^verbatim>\<open>clear\<close>, or the removal at the end of a \<^verbatim>\<open>pop\<close>. A
  \<^verbatim>\<open>pop\<close> of another thread that finds the deque empty waits itself (or gives up) and
  changes nothing.
\<close>

datatype 'a env_op = Env_push 'a | Env_pop | Env_clear

fun env_step :: "'a Concurrent_queue \<Rightarrow> 'a env_op \<Rightarrow> 'a Concurrent_queue" where
  "env_step q (Env_push item) = push item q"
| "env_step q Env_pop = (case take_front q of None \<Rightarrow> q | Some (v, q') \<Rightarrow> q')"
| "env_step q Env_clear = clear q"

text \<open>
  One wake-up of the calling thread: how long it slept, in nanoseconds, and what ran while
  it did. A
  spurious wake-up, and a notification whose item another consumer took first, are
  wake-ups that find the deque as empty as before.
\<close>

record 'a wake =
  slept :: nat
  ops :: "'a env_op list"

text \<open>
  \<^verbatim>\<open>cv_.wait(lock)\<close>: release the mutex, sleep, take the mutex again. The caller sees the
  deque as the other threads left it.
\<close>

definition cv_wait :: "'a wake \<Rightarrow> 'a Concurrent_queue \<Rightarrow> 'a Concurrent_queue" where
  "cv_wait w q = foldl env_step q (ops w)"

subsection \<open>Waiting on the condition variable\<close>

text \<open>
  \<^verbatim>\<open>cv_.wait(lock, pred)\<close> is \<^verbatim>\<open>while (!pred()) wait(lock);\<close>. The result is the part of the
  schedule not yet used and the queue at the moment the predicate held. When the schedule
  runs out with the predicate false, no wake-up ever comes again and the call does not
  return: the result is \<open>None\<close>.
\<close>

fun wait :: "'a wake list \<Rightarrow> 'a Concurrent_queue \<Rightarrow> ('a wake list \<times> 'a Concurrent_queue) option" where
  "wait [] q = (if nonempty q then Some ([], q) else None)"
| "wait (w # ws) q = (if nonempty q then Some (w # ws, q) else wait ws (cv_wait w q))"

datatype cv_status = no_timeout | timeout

text \<open>
  \<^verbatim>\<open>cv_.wait_until(lock, abs_time)\<close> with a wake-up \<open>w\<close> from the schedule: the clock moves
  on by the time slept, and the status is \<^verbatim>\<open>timeout\<close> when \<open>abs_time\<close> has been reached.
\<close>

definition cv_wait_until ::
  "int \<Rightarrow> 'a wake \<Rightarrow> int \<Rightarrow> 'a Concurrent_queue \<Rightarrow> cv_status \<times> int \<times> 'a Concurrent_queue" where
  "cv_wait_until abs_time w now q =
     (let now' = now + int (slept w)
      in (if abs_time \<le> now' then timeout else no_timeout, now', cv_wait w q))"

text \<open>
  \<^verbatim>\<open>cv_.wait_until(lock, abs_time, pred)\<close> is
  \<^verbatim>\<open>while (!pred()) if (wait_until(lock, abs_time) == cv_status::timeout) return pred(); return true;\<close>
  When the schedule has run out, nothing wakes the thread before \<open>abs_time\<close> and no
  other thread touches the deque: the wait ends by timeout at \<open>abs_time\<close> (at once when
  \<open>abs_time\<close> is already past). The result is the value returned, the schedule left, the
  clock and the queue.
\<close>

fun wait_until ::
  "int \<Rightarrow> 'a wake list \<Rightarrow> int \<Rightarrow> 'a Concurrent_queue \<Rightarrow>
     bool \<times> 'a wake list \<times> int \<times> 'a Concurrent_queue" where
  "wait_until abs_time [] now q =
     (if nonempty q then (True, [], now, q) else (nonempty q, [], max now abs_time, q))"
| "wait_until abs_time (w # ws) now q =
     (if nonempty q then (True, w # ws, now, q)
      else (case cv_wait_until abs_time w now q of
              (timeout, now', q') \<Rightarrow> (nonempty q', ws, now', q')
            | (no_timeout, now', q') \<Rightarrow> wait_until abs_time ws now' q'))"

text \<open>
  The deadline \<^verbatim>\<open>steady_clock::now() + rel_time\<close>, where \<open>now\<close> is the reading of the clock
  at the call. The sum is taken in the clock's unit: the count of milliseconds is
  multiplied by \<open>1000000\<close> and added to the reading, in signed 64-bit arithmetic. A product
  or a sum out of range wraps around, so that a very long duration can give a deadline in
  the past and a very negative one a deadline in the future.
\<close>

definition deadline :: "64 word \<Rightarrow> 64 word \<Rightarrow> 64 word" where
  "deadline now rel_time = now + rel_time * 1000000"

text \<open>
  \<^verbatim>\<open>cv_.wait_for(lock, rel_time, pred)\<close> is
  \<^verbatim>\<open>wait_until(lock, steady_clock::now() + rel_time, pred)\<close>.
\<close>

definition wait_for ::
  "64 word \<Rightarrow> 'a wake list \<Rightarrow> 64 word \<Rightarrow> 'a Concurrent_queue \<Rightarrow>
     bool \<times> 'a wake list \<times> int \<times> 'a Concurrent_queue" where
  "wait_for rel_time ws now q = wait_until (sint (deadline now rel_time)) ws (sint now) q"

subsection \<open>The two pops\<close>

text \<open>\<^verbatim>\<open>T pop()\<close>: wait for the predicate, then take the front.\<close>

definition pop :: "'a wake list \<Rightarrow> 'a Concurrent_queue \<Rightarrow> fault + ('a \<times> 'a Concurrent_queue)" where
  "pop ws q =
     (case wait ws q of
        None \<Rightarrow> Inl Blocked
      | Some (ws', q') \<Rightarrow>
          (case take_front q' of None \<Rightarrow> Inl Undefined | Some r \<Rightarrow> Inr r))"

text \<open>
  \<^verbatim>\<open>std::optional<T> pop(const std::chrono::milliseconds& time)\<close>: when \<^verbatim>\<open>wait_for\<close> returns
  false the result is the empty optional, otherwise the front is taken. The duration is a
  signed count of milliseconds.
\<close>

definition pop_timed ::
  "64 word \<Rightarrow> 64 word \<Rightarrow> 'a wake list \<Rightarrow> 'a Concurrent_queue \<Rightarrow> fault + ('a option \<times> 'a Concurrent_queue)" where
  "pop_timed time now ws q =
     (case wait_for time ws now q of
        (ok, ws', now', q') \<Rightarrow>
          if \<not> ok then Inr (None, q')
          else (case take_front q' of None \<Rightarrow> Inl Undefined | Some (v, q'') \<Rightarrow> Inr (Some v, q'')))"

subsection \<open>Sequences of calls\<close>

text \<open>Pushing the items of a list one after the other, first item first.\<close>

definition push_all :: "'a list \<Rightarrow> 'a Concurrent_queue \<Rightarrow> 'a Concurrent_queue" where
  "push_all items q = foldl (\<lambda>q' item. push item q') q items"

text \<open>
  A sequence of calls of \<^verbatim>\<open>pop()\<close>, one for each schedule of the list, with the values
  they return in the order of the calls. A call that does not return ends the sequence.
\<close>

fun pop_seq ::
  "'a wake list list \<Rightarrow> 'a Concurrent_queue \<Rightarrow> fault + ('a list \<times> 'a Concurrent_queue)" where
  "pop_seq [] q = Inr ([], q)"
| "pop_seq (ws # wss) q =
     (case pop ws q of
        Inl f \<Rightarrow> Inl f
      | Inr (v, q') \<Rightarrow>
          (case pop_seq wss q' of Inl f \<Rightarrow> Inl f | Inr (vs, q'') \<Rightarrow> Inr (v # vs, q'')))"

text \<open>
  An execution of pushes and pops by any number of threads, as the mutex serialises it:
  the list of the calls in the order of their critical sections, a \<^verbatim>\<open>pop\<close> standing where
  it comes back from its wait. Each call then runs with no other thread in between (the
  empty schedule). \<open>Pop_timed time now\<close> is a call of the timed \<^verbatim>\<open>pop\<close> with the clock at
  \<open>now\<close>. The result lists the values the pops returned, in order; a timed pop that
  returns the empty optional adds none.
\<close>

datatype 'a call = Push 'a | Pop | Pop_timed "64 word" "64 word"

fun pushed :: "'a call list \<Rightarrow> 'a list" where
  "pushed [] = []"
| "pushed (Push item # cs) = item # pushed cs"
| "pushed (Pop # cs) = pushed cs"
| "pushed (Pop_timed time now # cs) = pushed cs"

fun run :: "'a call list \<Rightarrow> 'a Concurrent_queue \<Rightarrow> fault + ('a list \<times> 'a Concurrent_queue)" where
  "run [] q = Inr ([], q)"
| "run (Push item # cs) q = run cs (push item q)"
| "run (Pop # cs) q =
     (case pop [] q of
        Inl f \<Rightarrow> Inl f
      | Inr (v, q') \<Rightarrow>
          (case run cs q' of Inl f \<Rightarrow> Inl f | Inr (vs, q'') \<Rightarrow> Inr (v # vs, q'')))"
| "run (Pop_timed time now # cs) q =
     (case pop_timed time now [] q of
        Inl f \<Rightarrow> Inl f
      | Inr (None, q') \<Rightarrow> run cs q'
      | Inr (Some v, q') \<Rightarrow>
          (case run cs q' of Inl f \<Rightarrow> Inl f | Inr (vs, q'') \<Rightarrow> Inr (v # vs, q'')))"

text \<open>The queue as the calling thread finds it after the wake-ups of a schedule.\<close>

definition after_wakes :: "'a wake list \<Rightarrow> 'a Concurrent_queue \<Rightarrow> 'a Concurrent_queue" where
  "after_wakes ws q = foldl (\<lambda>q' w. cv_wait w q') q ws"


section \<open>Properties\<close>

subsection \<open>Auxiliary facts\<close>

lemma nonempty_iff: "nonempty q \<longleftrightarrow> deque q \<noteq> []"
  by (simp add: nonempty_def)

lemma take_front_Cons: "deque q = v # rest \<Longrightarrow> take_front q = Some (v, q\<lparr>deque := rest\<rparr>)"
  by (simp add: take_front_def)

lemma take_front_Some:
  "take_front q = Some (v, q') \<Longrightarrow> deque q = v # deque q' \<and> q' = q\<lparr>deque := deque q'\<rparr>"
  by (auto simp: take_front_def split: list.splits)

lemma take_front_None: "take_front q = None \<longleftrightarrow> deque q = []"
  by (simp add: take_front_def split: list.splits)

lemma deque_push_all: "deque (push_all items q) = deque q @ items"
  unfolding push_all_def by (induction items arbitrary: q) (simp_all add: push_def)

paragraph \<open>The wait without a deadline\<close>

lemma wait_nonempty: "nonempty q \<Longrightarrow> wait ws q = Some (ws, q)"
  by (cases ws) simp_all

lemma wait_Some_nonempty: "wait ws q = Some (ws', q') \<Longrightarrow> nonempty q'"
  by (induction ws arbitrary: q) (auto split: if_splits)

lemma after_wakes_Nil: "after_wakes [] q = q"
  by (simp add: after_wakes_def)

lemma after_wakes_Cons: "after_wakes (w # ws) q = after_wakes ws (cv_wait w q)"
  by (simp add: after_wakes_def)

lemma all_le_Suc: "(\<forall>k\<le>Suc n. P k) \<longleftrightarrow> P 0 \<and> (\<forall>k\<le>n. P (Suc k))"
  by (metis Suc_le_mono le0 not0_implies_Suc)

text \<open>The wait never ends exactly when every wake-up of the schedule finds the deque empty.\<close>

lemma wait_None_iff:
  "wait ws q = None \<longleftrightarrow> (\<forall>k\<le>length ws. \<not> nonempty (after_wakes (take k ws) q))"
proof (induction ws arbitrary: q)
  case Nil
  show ?case by (simp add: after_wakes_Nil)
next
  case (Cons w ws)
  show ?case
    by (simp add: Cons.IH all_le_Suc after_wakes_Nil after_wakes_Cons)
qed

text \<open>It ends at the first wake-up that finds an item, and uses no wake-up after it.\<close>

lemma wait_Some:
  "wait ws q = Some (ws', q') \<Longrightarrow>
   \<exists>k\<le>length ws. ws' = drop k ws \<and> q' = after_wakes (take k ws) q \<and>
     (\<forall>j<k. \<not> nonempty (after_wakes (take j ws) q))"
proof (induction ws arbitrary: q)
  case Nil
  then show ?case by (auto simp: after_wakes_Nil split: if_splits)
next
  case (Cons w ws)
  show ?case
  proof (cases "nonempty q")
    case True
    with Cons.prems have "ws' = w # ws" "q' = q" by simp_all
    then show ?thesis by (intro exI [of _ 0]) (simp add: after_wakes_Nil)
  next
    case False
    with Cons.prems have "wait ws (cv_wait w q) = Some (ws', q')" by simp
    from Cons.IH [OF this] obtain k where k: "k \<le> length ws" "ws' = drop k ws"
      "q' = after_wakes (take k ws) (cv_wait w q)"
      "\<forall>j<k. \<not> nonempty (after_wakes (take j ws) (cv_wait w q))" by blast
    have "\<forall>j<Suc k. \<not> nonempty (after_wakes (take j (w # ws)) q)"
    proof (intro allI impI)
      fix j assume "j < Suc k"
      then show "\<not> nonempty (after_wakes (take j (w # ws)) q)"
        using False k(4) by (cases j) (simp_all add: after_wakes_Nil after_wakes_Cons)
    qed
    with k show ?thesis
      by (intro exI [of _ "Suc k"]) (simp add: after_wakes_Cons)
  qed
qed

paragraph \<open>The unbounded pop\<close>

lemma pop_Cons: "deque q = v # rest \<Longrightarrow> pop ws q = Inr (v, q\<lparr>deque := rest\<rparr>)"
  by (simp add: pop_def wait_nonempty nonempty_iff take_front_Cons)

lemma pop_Inr:
  "pop ws q = Inr (v, q') \<Longrightarrow> \<exists>ws1 q1. wait ws q = Some (ws1, q1) \<and> deque q1 = v # deque q'"
  by (auto simp: pop_def split: option.splits dest: take_front_Some)

lemma pop_not_Undefined: "pop ws q \<noteq> Inl Undefined"
  by (auto simp: pop_def take_front_None nonempty_iff split: option.splits
      dest: wait_Some_nonempty)

lemma pop_Blocked_iff: "pop ws q = Inl Blocked \<longleftrightarrow> wait ws q = None"
  by (auto simp: pop_def split: option.splits)

lemma pop_quiet: "pop [] q = Inr (v, q') \<Longrightarrow> deque q = v # deque q'"
  by (auto simp: pop_def split: if_splits option.splits dest: take_front_Some)

lemma pop_seq_drains:
  "length wss = length items \<Longrightarrow> deque q = items \<Longrightarrow>
   pop_seq wss q = Inr (items, q\<lparr>deque := []\<rparr>)"
proof (induction wss arbitrary: items q)
  case Nil
  then show ?case by simp
next
  case (Cons ws wss)
  then obtain v rest where items: "items = v # rest"
    by (cases items) auto
  with Cons.prems have p: "pop ws q = Inr (v, q\<lparr>deque := rest\<rparr>)"
    by (simp add: pop_Cons)
  from Cons.prems items
  have "pop_seq wss (q\<lparr>deque := rest\<rparr>) = Inr (rest, q\<lparr>deque := rest, deque := []\<rparr>)"
    by (intro Cons.IH) simp_all
  with p items show ?case by simp
qed

paragraph \<open>The wait with a deadline\<close>

text \<open>The value returned is the predicate at the last look at the deque.\<close>

lemma wait_until_ok:
  "wait_until abs_time ws now q = (ok, ws', now', q') \<Longrightarrow> ok = nonempty q'"
  by (induction ws arbitrary: now q) (auto simp: cv_wait_until_def Let_def split: if_splits)

text \<open>It returns false only once the deadline has been reached.\<close>

lemma wait_until_elapsed:
  "wait_until abs_time ws now q = (False, ws', now', q') \<Longrightarrow> abs_time \<le> now'"
  by (induction ws arbitrary: now q) (auto simp: cv_wait_until_def Let_def split: if_splits)

lemma wait_until_nonempty: "nonempty q \<Longrightarrow> wait_until abs_time ws now q = (True, ws, now, q)"
  by (cases ws) simp_all




paragraph \<open>The deadline\<close>




paragraph \<open>The timed pop\<close>

lemma pop_timed_cases:
  assumes w: "wait_for time ws now q = (ok, ws1, now1, q1)"
  shows "(ok \<and> (\<exists>v q'. deque q1 = v # deque q' \<and> pop_timed time now ws q = Inr (Some v, q'))) \<or>
    (\<not> ok \<and> deque q1 = [] \<and> sint (deadline now time) \<le> now1 \<and>
      pop_timed time now ws q = Inr (None, q1))"
proof -
  from w have ok: "ok = nonempty q1"
    by (simp add: wait_for_def wait_until_ok)
  show ?thesis
  proof (cases ok)
    case True
    with ok obtain v rest where "deque q1 = v # rest"
      by (cases "deque q1") (auto simp: nonempty_iff)
    with w True show ?thesis
      by (simp add: pop_timed_def take_front_Cons)
  next
    case False
    with w have "sint (deadline now time) \<le> now1"
      by (auto simp: wait_for_def dest: wait_until_elapsed)
    with w False ok show ?thesis
      by (simp add: pop_timed_def nonempty_iff)
  qed
qed


lemma pop_timed_quiet_Some:
  "pop_timed time now [] q = Inr (Some v, q') \<Longrightarrow> deque q = v # deque q'"
  by (auto simp: pop_timed_def wait_for_def split: if_splits option.splits
      dest: take_front_Some)

lemma pop_timed_quiet_None: "pop_timed time now [] q = Inr (None, q') \<Longrightarrow> deque q' = deque q"
  by (auto simp: pop_timed_def wait_for_def split: if_splits option.splits)

paragraph \<open>Executions\<close>

text \<open>
  At every point of an execution, what was in the deque followed by what was pushed is
  what the pops returned followed by what is in the deque.
\<close>

lemma run_conserves:
  "run calls q = Inr (outs, q') \<Longrightarrow> deque q @ pushed calls = outs @ deque q'"
proof (induction calls q arbitrary: outs rule: run.induct)
  case (1 q)
  then show ?case by simp
next
  case (2 item cs q)
  then show ?case by (simp add: push_def)
next
  case (3 cs q)
  then show ?case
    by (auto split: sum.splits prod.splits dest: pop_quiet)
next
  case (4 time now cs q)
  then show ?case
    by (auto split: sum.splits prod.splits option.splits
        dest: pop_timed_quiet_Some pop_timed_quiet_None)
qed

subsection \<open>First in, first out\<close>

text \<open>
  Claim C1. Push the items \<open>p1, ..., pn\<close> onto a new queue, with no pop in between. Then
  \<open>n\<close> calls of \<^verbatim>\<open>pop()\<close>, whatever the schedule of each, all return, their values are
  \<open>p1, ..., pn\<close> in this order, and the queue is empty again.
\<close>

theorem fifo_order:
  "length wss = length items \<Longrightarrow>
   pop_seq wss (push_all items Concurrent_queue) = Inr (items, Concurrent_queue)"
  using pop_seq_drains [of wss items "push_all items Concurrent_queue"]
  by (simp add: deque_push_all Concurrent_queue_def)

theorem fifo_order_witness:
  "length [[], [\<lparr>slept = 2, ops = [Env_clear]\<rparr>], []] = length [4, 9, 4 :: nat] \<and>
   pop_seq [[], [\<lparr>slept = 2, ops = [Env_clear]\<rparr>], []] (push_all [4, 9, 4 :: nat] Concurrent_queue)
     = Inr ([4, 9, 4], Concurrent_queue)"
  using fifo_order [of "[[], [\<lparr>slept = 2, ops = [Env_clear]\<rparr>], []]" "[4, 9, 4 :: nat]"]
  by simp

subsection \<open>No loss, no duplication\<close>

text \<open>
  Claim C2. Take any execution of pushes and pops on a new queue in which every call
  returns and which leaves the queue empty. Then the values the pops returned are, as a
  multiset, the values pushed, and there are as many of the one as of the other.
\<close>

theorem no_loss_no_duplication:
  "run calls Concurrent_queue = Inr (outs, q') \<Longrightarrow> deque q' = [] \<Longrightarrow>
   mset outs = mset (pushed calls) \<and> length outs = length (pushed calls)"
  using run_conserves [of calls Concurrent_queue outs q']
  by (simp add: Concurrent_queue_def)

theorem no_loss_no_duplication_witness:
  "run [Push 1, Push 2, Pop, Push 1, Pop_timed 0 7, Pop, Pop_timed 3 9] Concurrent_queue
     = Inr ([1, 2, 1 :: nat], Concurrent_queue) \<and>
   deque (Concurrent_queue :: nat Concurrent_queue) = [] \<and>
   mset [1, 2, 1 :: nat]
     = mset (pushed [Push 1, Push 2, Pop, Push 1, Pop_timed 0 7, Pop, Pop_timed 3 9]) \<and>
   length [1, 2, 1 :: nat]
     = length (pushed [Push (1 :: nat), Push 2, Pop, Push 1, Pop_timed 0 7, Pop, Pop_timed 3 9])"
proof -
  have r: "run [Push 1, Push 2, Pop, Push 1, Pop_timed 0 7, Pop, Pop_timed 3 9] Concurrent_queue
     = Inr ([1, 2, 1 :: nat], Concurrent_queue)"
    by (simp add: pop_def pop_timed_def wait_for_def nonempty_def push_def take_front_def
        Concurrent_queue_def)
  have e: "deque (Concurrent_queue :: nat Concurrent_queue) = []"
    by (simp add: Concurrent_queue_def)
  from no_loss_no_duplication [OF r e] r e show ?thesis
    by simp
qed

subsection \<open>The outcomes of the timed pop\<close>




subsection \<open>A zero duration\<close>

text \<open>
  Claim C4. On an empty queue the timed pop with the duration zero returns the empty
  optional, and the clock has not moved when it does (no other thread acting in between).
  It is an immediate check and never a long wait: whatever the schedule, the call sleeps
  at most once, that sleep ends by timeout, and the answer is what the deque holds then.
\<close>

theorem zero_duration_on_empty:
  "deque q = [] \<Longrightarrow>
   pop_timed 0 now [] q = Inr (None, q) \<and>
   wait_for 0 [] now q = (False, [], sint now, q) \<and>
   wait_for 0 (w # ws) now q
     = (nonempty (cv_wait w q), ws, sint now + int (slept w), cv_wait w q)"
  by (simp add: pop_timed_def wait_for_def deadline_def nonempty_iff cv_wait_until_def Let_def)

theorem zero_duration_on_empty_witness:
  "deque (Concurrent_queue :: nat Concurrent_queue) = [] \<and>
   pop_timed 0 100 [] (Concurrent_queue :: nat Concurrent_queue) = Inr (None, Concurrent_queue) \<and>
   wait_for 0 [] 100 (Concurrent_queue :: nat Concurrent_queue)
     = (False, [], 100, Concurrent_queue) \<and>
   wait_for 0 [\<lparr>slept = 1, ops = []\<rparr>, \<lparr>slept = 1, ops = [Env_push 3]\<rparr>] 100
       (Concurrent_queue :: nat Concurrent_queue)
     = (False, [\<lparr>slept = 1, ops = [Env_push 3]\<rparr>], 101, Concurrent_queue)"
  using zero_duration_on_empty [of "Concurrent_queue :: nat Concurrent_queue" 100
      "\<lparr>slept = 1, ops = []\<rparr>" "[\<lparr>slept = 1, ops = [Env_push 3]\<rparr>]"]
  by (simp add: Concurrent_queue_def nonempty_def cv_wait_def)

subsection \<open>The timed pop on a queue that is not empty\<close>

text \<open>
  Claim C5. On a queue that is not empty the timed pop removes and returns the front item,
  whatever the duration (positive, zero or negative). It does not wait: \<^verbatim>\<open>wait_for\<close>
  returns true with the whole schedule unused, the clock where it was and the queue
  untouched.
\<close>

theorem timed_pop_on_nonempty:
  "deque q = v # rest \<Longrightarrow>
   pop_timed time now ws q = Inr (Some v, q\<lparr>deque := rest\<rparr>) \<and>
   wait_for time ws now q = (True, ws, sint now, q)"
  by (simp add: pop_timed_def wait_for_def wait_until_nonempty nonempty_iff take_front_Cons)

theorem timed_pop_on_nonempty_witness:
  "deque \<lparr>deque = [8, 3 :: nat]\<rparr> = 8 # [3] \<and>
   pop_timed 250 100 [\<lparr>slept = 5, ops = [Env_clear]\<rparr>] \<lparr>deque = [8, 3 :: nat]\<rparr>
     = Inr (Some 8, \<lparr>deque = [3]\<rparr>) \<and>
   wait_for 250 [\<lparr>slept = 5, ops = [Env_clear]\<rparr>] 100 \<lparr>deque = [8, 3 :: nat]\<rparr>
     = (True, [\<lparr>slept = 5, ops = [Env_clear]\<rparr>], 100, \<lparr>deque = [8, 3]\<rparr>)"
  using timed_pop_on_nonempty [of "\<lparr>deque = [8, 3 :: nat]\<rparr>" 8 "[3]" 250 100
      "[\<lparr>slept = 5, ops = [Env_clear]\<rparr>]"]
  by simp

subsection \<open>Clearing\<close>

text \<open>
  Claim C6. \<^verbatim>\<open>clear\<close> has no failing branch and leaves the queue as a new one, empty,
  whatever it held. A timed pop that follows (no other thread acting in between) returns
  the empty optional, for every duration; so does \<^verbatim>\<open>pop(10ms)\<close> after pushing \<open>a\<close>, \<open>b\<close>,
  \<open>c\<close> and clearing.
\<close>

theorem clear_leaves_empty:
  "clear q = Concurrent_queue \<and>
   deque (clear q) = [] \<and>
   pop_timed time now [] (clear q) = Inr (None, Concurrent_queue) \<and>
   pop_timed 10 now [] (clear (push_all [a, b, c] Concurrent_queue)) = Inr (None, Concurrent_queue)"
  by (simp add: clear_def Concurrent_queue_def pop_timed_def wait_for_def nonempty_iff)

subsection \<open>A negative duration\<close>

text \<open>
  Claim C7, as the specification words it, says that no call with a negative duration is
  accepted. The duration is a signed count of milliseconds and no branch of the method
  looks at its sign: the call with \<open>-5\<close> below returns an item from a queue that holds
  one, and the empty optional from an empty queue.
\<close>

theorem negative_duration_accepted:
  "sint (-5 :: 64 word) < 0 \<and>
   pop_timed (-5) 100 [] (push (7 :: nat) Concurrent_queue) = Inr (Some 7, Concurrent_queue) \<and>
   pop_timed (-5) 100 [] (Concurrent_queue :: nat Concurrent_queue) = Inr (None, Concurrent_queue)"
  by (simp add: pop_timed_def wait_for_def nonempty_def push_def Concurrent_queue_def
      take_front_def)

text \<open>
  Claim C7, amended. A negative duration is an accepted input: a call with one returns
  as any other call does, with an item or with the empty optional. On a queue that is not
  empty it returns the front item; on an empty queue, no other thread acting, it returns
  the empty optional.
\<close>

theorem negative_duration_returns:
  "sint time < 0 \<Longrightarrow>
   (\<exists>r q'. pop_timed time now ws q = Inr (r, q')) \<and>
   (\<forall>v rest. deque q = v # rest \<longrightarrow> pop_timed time now ws q = Inr (Some v, q\<lparr>deque := rest\<rparr>)) \<and>
   (deque q = [] \<longrightarrow> pop_timed time now [] q = Inr (None, q))"
proof (intro conjI allI impI)
  obtain ok ws1 now1 q1 where w: "wait_for time ws now q = (ok, ws1, now1, q1)"
    by (cases "wait_for time ws now q") auto
  from pop_timed_cases [OF w] show "\<exists>r q'. pop_timed time now ws q = Inr (r, q')"
    by auto
next
  fix v rest assume "deque q = v # rest"
  then show "pop_timed time now ws q = Inr (Some v, q\<lparr>deque := rest\<rparr>)"
    by (simp add: pop_timed_def wait_for_def wait_until_nonempty nonempty_iff take_front_Cons)
next
  assume "deque q = []"
  then show "pop_timed time now [] q = Inr (None, q)"
    by (simp add: pop_timed_def wait_for_def nonempty_iff)
qed

theorem negative_duration_returns_witness:
  "sint (-5 :: 64 word) < 0 \<and>
   (\<exists>r q'. pop_timed (-5) 100 [\<lparr>slept = 4, ops = [Env_push 6]\<rparr>] \<lparr>deque = [8, 3 :: nat]\<rparr>
      = Inr (r, q')) \<and>
   pop_timed (-5) 100 [\<lparr>slept = 4, ops = [Env_push 6]\<rparr>] \<lparr>deque = [8, 3 :: nat]\<rparr>
     = Inr (Some 8, \<lparr>deque = [3]\<rparr>)"
proof -
  have n: "sint (-5 :: 64 word) < 0"
    by simp
  from negative_duration_returns [OF n, of 100 "[\<lparr>slept = 4, ops = [Env_push 6]\<rparr>]"
      "\<lparr>deque = [8, 3 :: nat]\<rparr>"] n
  show ?thesis
    by simp
qed

subsection \<open>Blocking and spurious wake-ups\<close>

text \<open>
  Claim C8. The unbounded pop stays blocked exactly when the deque is empty at the call
  and at every wake-up of the schedule. When it returns, it returns at the first wake-up
  \<open>k\<close> that finds the deque non-empty (\<open>k = 0\<close> is the call itself): at all earlier ones
  the deque was empty, and the value is the front of the deque as it is at wake-up \<open>k\<close>.
  It never takes the front of an empty deque. A spurious wake-up, one before which no
  other thread did anything, changes nothing on an empty queue: the call goes on as if
  the wake-up had not happened.
\<close>

theorem pop_blocks_until_item:
  "(pop ws q = Inl Blocked \<longleftrightarrow> (\<forall>k\<le>length ws. deque (after_wakes (take k ws) q) = [])) \<and>
   (\<forall>v q'. pop ws q = Inr (v, q') \<longrightarrow>
      (\<exists>k\<le>length ws. (\<forall>j<k. deque (after_wakes (take j ws) q) = []) \<and>
         deque (after_wakes (take k ws) q) = v # deque q')) \<and>
   pop ws q \<noteq> Inl Undefined \<and>
   (\<forall>w. deque q = [] \<and> ops w = [] \<longrightarrow> pop (w # ws) q = pop ws q)"
proof (intro conjI allI impI)
  show "pop ws q = Inl Blocked \<longleftrightarrow> (\<forall>k\<le>length ws. deque (after_wakes (take k ws) q) = [])"
    by (simp add: pop_Blocked_iff wait_None_iff nonempty_iff)
next
  fix v q' assume "pop ws q = Inr (v, q')"
  from pop_Inr [OF this]
  obtain ws1 q1 where w: "wait ws q = Some (ws1, q1)" and d: "deque q1 = v # deque q'"
    by blast
  from wait_Some [OF w] d
  show "\<exists>k\<le>length ws. (\<forall>j<k. deque (after_wakes (take j ws) q) = []) \<and>
         deque (after_wakes (take k ws) q) = v # deque q'"
    by (auto simp: nonempty_iff)
next
  show "pop ws q \<noteq> Inl Undefined"
    by (rule pop_not_Undefined)
next
  fix w :: "'a wake" assume "deque q = [] \<and> ops w = []"
  then show "pop (w # ws) q = pop ws q"
    by (simp add: pop_def nonempty_iff cv_wait_def)
qed

theorem pop_blocks_until_item_witness:
  "deque (Concurrent_queue :: nat Concurrent_queue) = [] \<and>
   ops \<lparr>slept = 1, ops = [] :: nat env_op list\<rparr> = [] \<and>
   pop [\<lparr>slept = 1, ops = []\<rparr>, \<lparr>slept = 2, ops = [Env_push 5, Env_push 6]\<rparr>] Concurrent_queue
     = Inr (5 :: nat, \<lparr>deque = [6]\<rparr>) \<and>
   pop [\<lparr>slept = 2, ops = [Env_push 5, Env_push 6]\<rparr>] Concurrent_queue
     = Inr (5 :: nat, \<lparr>deque = [6]\<rparr>) \<and>
   pop [\<lparr>slept = 2, ops = [Env_push 5, Env_push 6]\<rparr>] (Concurrent_queue :: nat Concurrent_queue)
     \<noteq> Inl Blocked \<and>
   (\<exists>k\<le>1. deque (after_wakes (take k [\<lparr>slept = 2, ops = [Env_push 5, Env_push 6]\<rparr>])
       (Concurrent_queue :: nat Concurrent_queue)) \<noteq> [])"
proof -
  let ?w = "\<lparr>slept = 1, ops = [] :: nat env_op list\<rparr>"
  let ?ws = "[\<lparr>slept = 2, ops = [Env_push (5 :: nat), Env_push 6]\<rparr>]"
  let ?q = "Concurrent_queue :: nat Concurrent_queue"
  have e: "deque ?q = [] \<and> ops ?w = []"
    by (simp add: Concurrent_queue_def)
  have p: "pop ?ws ?q = Inr (5, \<lparr>deque = [6]\<rparr>)"
    by (simp add: pop_def nonempty_def cv_wait_def push_def take_front_def Concurrent_queue_def)
  from pop_blocks_until_item [of ?ws ?q] e
  have s: "pop (?w # ?ws) ?q = pop ?ws ?q"
    by blast
  from p have nb: "pop ?ws ?q \<noteq> Inl Blocked"
    by simp
  with pop_blocks_until_item [of ?ws ?q]
  have "\<not> (\<forall>k\<le>length ?ws. deque (after_wakes (take k ?ws) ?q) = [])"
    by blast
  then have "\<exists>k\<le>1. deque (after_wakes (take k ?ws) ?q) \<noteq> []"
    by simp
  with e p s nb show ?thesis
    by simp
qed

subsection \<open>The two pops on a queue that is not empty\<close>

text \<open>
  Claim C9. On a queue that is not empty the unbounded pop and the timed pop, with any
  duration and any schedules, both return at once, return the same value, the front
  item, and leave the same queue, the one without its front item; the timed pop wraps
  the value in \<open>Some\<close>.
\<close>

theorem pops_agree_on_nonempty:
  "deque q \<noteq> [] \<Longrightarrow>
   \<exists>v q'. pop ws q = Inr (v, q') \<and> pop_timed time now ws' q = Inr (Some v, q') \<and>
     deque q = v # deque q'"
proof -
  assume "deque q \<noteq> []"
  then obtain v rest where d: "deque q = v # rest"
    by (cases "deque q") auto
  then have "pop ws q = Inr (v, q\<lparr>deque := rest\<rparr>)"
    and "pop_timed time now ws' q = Inr (Some v, q\<lparr>deque := rest\<rparr>)"
    by (simp_all add: pop_Cons pop_timed_def wait_for_def wait_until_nonempty nonempty_iff
        take_front_Cons)
  with d show ?thesis
    by simp
qed

theorem pops_agree_on_nonempty_witness:
  "deque \<lparr>deque = [8, 3 :: nat]\<rparr> \<noteq> [] \<and>
   (\<exists>v q'. pop [] \<lparr>deque = [8, 3 :: nat]\<rparr> = Inr (v, q') \<and>
      pop_timed (-1) 100 [\<lparr>slept = 5, ops = [Env_clear]\<rparr>] \<lparr>deque = [8, 3]\<rparr> = Inr (Some v, q') \<and>
      deque \<lparr>deque = [8, 3 :: nat]\<rparr> = v # deque q')"
  using pops_agree_on_nonempty [of "\<lparr>deque = [8, 3 :: nat]\<rparr>" "[]" "-1" 100
      "[\<lparr>slept = 5, ops = [Env_clear]\<rparr>]"]
  by simp

subsection \<open>What push and pop leave alone\<close>

text \<open>
  Claim C10. \<^verbatim>\<open>push\<close> changes the deque by one item added at the back: the items it held
  are all there, in their places. A pop of either kind that returns an item changes the
  deque it found when its wait ended by the removal of the front, which is the item
  returned: the items behind the front are all there, in their order.
\<close>

theorem push_pop_frame:
  "deque (push item q) = deque q @ [item] \<and>
   (\<forall>v q'. pop ws q = Inr (v, q') \<longrightarrow>
      (\<exists>ws1 q1. wait ws q = Some (ws1, q1) \<and> deque q1 = v # deque q')) \<and>
   (\<forall>v q'. pop_timed time now ws q = Inr (Some v, q') \<longrightarrow>
      (\<exists>ws1 now1 q1. wait_for time ws now q = (True, ws1, now1, q1) \<and>
         deque q1 = v # deque q'))"
proof (intro conjI allI impI)
  show "deque (push item q) = deque q @ [item]"
    by (simp add: push_def)
next
  fix v q' assume "pop ws q = Inr (v, q')"
  then show "\<exists>ws1 q1. wait ws q = Some (ws1, q1) \<and> deque q1 = v # deque q'"
    by (rule pop_Inr)
next
  fix v q' assume p: "pop_timed time now ws q = Inr (Some v, q')"
  obtain ok ws1 now1 q1 where w: "wait_for time ws now q = (ok, ws1, now1, q1)"
    by (cases "wait_for time ws now q") auto
  from pop_timed_cases [OF w] p w
  show "\<exists>ws1 now1 q1. wait_for time ws now q = (True, ws1, now1, q1) \<and>
      deque q1 = v # deque q'"
    by auto
qed

theorem push_pop_frame_witness:
  "deque (push 4 \<lparr>deque = [8, 3 :: nat]\<rparr>) = [8, 3] @ [4] \<and>
   pop [] \<lparr>deque = [8, 3 :: nat]\<rparr> = Inr (8, \<lparr>deque = [3]\<rparr>) \<and>
   (\<exists>ws1 q1. wait [] \<lparr>deque = [8, 3 :: nat]\<rparr> = Some (ws1, q1) \<and> deque q1 = 8 # [3]) \<and>
   pop_timed 20 100 [] \<lparr>deque = [8, 3 :: nat]\<rparr> = Inr (Some 8, \<lparr>deque = [3]\<rparr>) \<and>
   (\<exists>ws1 now1 q1. wait_for 20 [] 100 \<lparr>deque = [8, 3 :: nat]\<rparr> = (True, ws1, now1, q1) \<and>
      deque q1 = 8 # [3])"
proof -
  let ?q = "\<lparr>deque = [8, 3 :: nat]\<rparr>"
  have p: "pop [] ?q = Inr (8, \<lparr>deque = [3]\<rparr>)"
    by (simp add: pop_def nonempty_def take_front_def)
  have t: "pop_timed 20 100 [] ?q = Inr (Some 8, \<lparr>deque = [3]\<rparr>)"
    by (simp add: pop_timed_def wait_for_def nonempty_def take_front_def)
  from push_pop_frame [of 4 ?q "[]" 20 100] p t show ?thesis
    by simp
qed

end
